theory Spec2Isabelle
  imports Complex_Main "HOL-Library.Sublist" "HOL-Library.AList" "HOL-Library.Multiset"
begin

section \<open>Strings of the runtime\<close>

text \<open>
  A source string is modelled as a \<^typ>\<open>string\<close>: a list of code units, each in the range
  U+0000..U+00FF. \<open>length\<close> is the source's \<open>.length\<close>, \<open>take 200\<close> is \<open>.slice(0, 200)\<close>.
\<close>

text \<open>The white space of \<open>String.prototype.trim\<close> and of the regular expression class
  \<open>\s\<close>, within that range: TAB, LF, VT, FF, CR, SPACE and NBSP.\<close>

definition is_space :: "char \<Rightarrow> bool" where
  "is_space c = (of_char c \<in> {9, 10, 11, 12, 13, 32, 160 :: nat})"

definition trimStart :: "string \<Rightarrow> string" where
  "trimStart s = dropWhile is_space s"

definition trimEnd :: "string \<Rightarrow> string" where
  "trimEnd s = rev (dropWhile is_space (rev s))"

definition trim :: "string \<Rightarrow> string" where
  "trim s = trimEnd (trimStart s)"

text \<open>\<open>String.prototype.toLowerCase\<close> on that range: A..Z and the upper-case letters of
  Latin-1 (U+00C0..U+00DE without the multiplication sign U+00D7) move up by 32.\<close>

definition lower_char :: "char \<Rightarrow> char" where
  "lower_char c =
     (let n = (of_char c :: nat)
      in if (65 \<le> n \<and> n \<le> 90) \<or> (192 \<le> n \<and> n \<le> 214) \<or> (216 \<le> n \<and> n \<le> 222)
         then char_of (n + 32) else c)"

definition toLowerCase :: "string \<Rightarrow> string" where
  "toLowerCase s = map lower_char s"

text \<open>\<open>s.includes(q)\<close>: some position of \<open>s\<close> starts an occurrence of \<open>q\<close>.\<close>

fun includes_str :: "string \<Rightarrow> string \<Rightarrow> bool" where
  "includes_str [] q = (q = [])"
| "includes_str (c # cs) q = (prefix q (c # cs) \<or> includes_str cs q)"

section \<open>Task records\<close>

text \<open>\<open>Todo\<close> of \<open>api.ts\<close>. \<open>due_at\<close> and \<open>tags\<close> are nullable.\<close>

record Todo =
  t_id :: string
  t_title :: string
  t_completed :: bool
  t_created_at :: string
  t_user_id :: string
  t_due_at :: "string option"
  t_remind :: bool
  t_reminded :: bool
  t_tags :: "string list option"
  t_order :: int

section \<open>Filter pipeline (\<open>filteredTodos\<close> of \<open>TodoPage.tsx\<close>)\<close>

datatype FilterType = FilterAll | FilterActive | FilterCompleted

text \<open>The search clause: a record is dropped when the query is non-empty and the
  lower-cased title does not include the lower-cased query. The query is used as typed.\<close>

definition search_keeps :: "string \<Rightarrow> Todo \<Rightarrow> bool" where
  "search_keeps searchQuery todo =
     (if searchQuery \<noteq> [] \<and> \<not> includes_str (toLowerCase (t_title todo)) (toLowerCase searchQuery)
      then False else True)"

definition status_keeps :: "FilterType \<Rightarrow> Todo \<Rightarrow> bool" where
  "status_keeps flt todo =
     (if flt = FilterActive \<and> t_completed todo then False
      else if flt = FilterCompleted \<and> \<not> t_completed todo then False
      else True)"

text \<open>The tag clause: \<open>selectedTag\<close> is \<open>null\<close> or a string, and the empty string is falsy.\<close>

definition tag_keeps :: "string option \<Rightarrow> Todo \<Rightarrow> bool" where
  "tag_keeps selectedTag todo =
     (case selectedTag of
        None \<Rightarrow> True
      | Some tg \<Rightarrow>
          if tg = [] then True
          else (case t_tags todo of None \<Rightarrow> False | Some ts \<Rightarrow> List.member ts tg))"

definition keeps :: "FilterType \<Rightarrow> string \<Rightarrow> string option \<Rightarrow> Todo \<Rightarrow> bool" where
  "keeps flt searchQuery selectedTag todo =
     (if \<not> status_keeps flt todo then False
      else if \<not> search_keeps searchQuery todo then False
      else if \<not> tag_keeps selectedTag todo then False
      else True)"

definition filteredTodos ::
  "FilterType \<Rightarrow> string \<Rightarrow> string option \<Rightarrow> Todo list \<Rightarrow> Todo list" where
  "filteredTodos flt searchQuery selectedTag todos =
     filter (keeps flt searchQuery selectedTag) todos"

section \<open>Remote collection gateway\<close>

datatype error =
  ValidationError | NotAuthenticated | GatewayError | GenerationError | SyntaxError | TypeError

text \<open>The body of an \<open>.update({...})\<close> request: every key is optional. For \<open>due_at\<close> the
  outer \<open>None\<close> is an absent key and \<open>Some None\<close> is \<open>null\<close>.\<close>

record todo_patch =
  p_completed :: "bool option"
  p_title :: "string option"
  p_due_at :: "string option option"
  p_remind :: "bool option"
  p_reminded :: "bool option"
  p_tags :: "string list option"
  p_order :: "int option"

definition empty_patch :: todo_patch where
  "empty_patch = \<lparr>p_completed = None, p_title = None, p_due_at = None, p_remind = None,
     p_reminded = None, p_tags = None, p_order = None\<rparr>"

text \<open>The body of the \<open>.insert({...})\<close> request of \<open>createTodo\<close>.\<close>

record insert_row =
  n_title :: string
  n_user_id :: string
  n_due_at :: "string option"
  n_remind :: bool
  n_tags :: "string list"

text \<open>One request to the gateway: \<open>auth.getUser()\<close>, \<open>.insert(row)\<close>,
  \<open>.update(patch).eq("id", id)\<close>, \<open>.delete().eq("id", id)\<close>.\<close>

datatype request =
  GetUser
| Insert insert_row
| Update string todo_patch
| Delete string

text \<open>What the gateway answers: the signed-in user's id (or none), and for each request
  whether its response carries an error.\<close>

record gateway =
  gw_user :: "string option"
  gw_fails :: "request \<Rightarrow> bool"

text \<open>An operation yields its outcome and the requests it has sent, in order.\<close>

type_synonym outcome = "(error + unit) \<times> request list"

subsection \<open>Validation schemas of \<open>api.ts\<close>\<close>

text \<open>\<open>z.string().uuid()\<close> belongs to the validation library, which is not part of the
  sources; it is taken as the canonical textual form of a UUID: 36 characters,
  hyphens at positions 8, 13, 18 and 23, hexadecimal digits elsewhere.\<close>

definition is_hex :: "char \<Rightarrow> bool" where
  "is_hex c =
     (let n = (of_char c :: nat)
      in (48 \<le> n \<and> n \<le> 57) \<or> (65 \<le> n \<and> n \<le> 70) \<or> (97 \<le> n \<and> n \<le> 102))"

definition is_uuid :: "string \<Rightarrow> bool" where
  "is_uuid s =
     (length s = 36 \<and>
      list_all (\<lambda>i. if i = 8 \<or> i = 13 \<or> i = 18 \<or> i = 23 then s ! i = CHR ''-'' else is_hex (s ! i))
        [0..<36])"

text \<open>\<open>TodoSchema\<close>, which \<open>fetchTodos\<close> applies to every row it reads; the typed
  fields need no check.\<close>

definition TodoSchema :: "Todo \<Rightarrow> bool" where
  "TodoSchema t =
     (is_uuid (t_id t) \<and> 1 \<le> length (t_title t) \<and> length (t_title t) \<le> 200 \<and>
      is_uuid (t_user_id t))"

record CreateTodoInput =
  c_title :: string
  c_due_at :: "string option option"
  c_remind :: "bool option"
  c_tags :: "string list option"

text \<open>\<open>CreateTodoSchema\<close>: \<open>title: z.string().min(1).max(200)\<close>; the other fields are
  typed and optional.\<close>

definition CreateTodoSchema :: "CreateTodoInput \<Rightarrow> bool" where
  "CreateTodoSchema input = (1 \<le> length (c_title input) \<and> length (c_title input) \<le> 200)"

text \<open>\<open>UpdateTodoInput\<close>: the id and the remaining keys (\<open>const { id, ...updates } = input\<close>).\<close>

record UpdateTodoInput =
  u_id :: string
  u_updates :: todo_patch

definition UpdateTodoSchema :: "UpdateTodoInput \<Rightarrow> bool" where
  "UpdateTodoSchema input =
     (is_uuid (u_id input) \<and>
      (case p_title (u_updates input) of
         None \<Rightarrow> True
       | Some t \<Rightarrow> 1 \<le> length t \<and> length t \<le> 200))"

subsection \<open>Mutating operations of \<open>api.ts\<close>\<close>

definition createTodo :: "gateway \<Rightarrow> CreateTodoInput \<Rightarrow> outcome" where
  "createTodo gw input =
     (if \<not> CreateTodoSchema input then (Inl ValidationError, [])
      else case gw_user gw of
        None \<Rightarrow> (Inl NotAuthenticated, [GetUser])
      | Some uid \<Rightarrow>
          let row = \<lparr>n_title = trim (c_title input),
                     n_user_id = uid,
                     n_due_at = (case c_due_at input of
                                   Some (Some d) \<Rightarrow> if d = [] then None else Some d
                                 | _ \<Rightarrow> None),
                     n_remind = (case c_remind input of Some b \<Rightarrow> b | None \<Rightarrow> False),
                     n_tags = (case c_tags input of Some ts \<Rightarrow> ts | None \<Rightarrow> [])\<rparr>
          in if gw_fails gw (Insert row) then (Inl GatewayError, [GetUser, Insert row])
             else (Inr (), [GetUser, Insert row]))"

definition updateTodo :: "gateway \<Rightarrow> UpdateTodoInput \<Rightarrow> outcome" where
  "updateTodo gw input =
     (if \<not> UpdateTodoSchema input then (Inl ValidationError, [])
      else let req = Update (u_id input) (u_updates input)
           in if gw_fails gw req then (Inl GatewayError, [req]) else (Inr (), [req]))"

definition toggleTodo :: "gateway \<Rightarrow> string \<Rightarrow> bool \<Rightarrow> outcome" where
  "toggleTodo gw ident completed =
     (if \<not> is_uuid ident then (Inl ValidationError, [])
      else let req = Update ident (empty_patch\<lparr>p_completed := Some completed\<rparr>)
           in if gw_fails gw req then (Inl GatewayError, [req]) else (Inr (), [req]))"

definition deleteTodo :: "gateway \<Rightarrow> string \<Rightarrow> outcome" where
  "deleteTodo gw ident =
     (if \<not> is_uuid ident then (Inl ValidationError, [])
      else let req = Delete ident
           in if gw_fails gw req then (Inl GatewayError, [req]) else (Inr (), [req]))"

text \<open>\<open>reorderTodos\<close> maps every \<open>{id, order}\<close> to its own update request and awaits them
  together. It parses nothing and never reads a response's error.\<close>

type_synonym order_update = "string \<times> int"

definition order_request :: "order_update \<Rightarrow> request" where
  "order_request todo = Update (fst todo) (empty_patch\<lparr>p_order := Some (snd todo)\<rparr>)"

definition reorderTodos :: "order_update list \<Rightarrow> outcome" where
  "reorderTodos todos = (Inr (), map order_request todos)"

subsection \<open>Effect of a request on the remote collection\<close>

text \<open>Modelled from the spec: the remote store itself is an external collaborator. An
  update changes the keys of its body in every row with the given id, a delete removes
  those rows, an insert appends a row with the gateway's defaults (\<open>completed\<close> and
  \<open>reminded\<close> false, \<open>order\<close> 0) under a fresh id and creation time.\<close>

definition apply_patch :: "todo_patch \<Rightarrow> Todo \<Rightarrow> Todo" where
  "apply_patch p t =
     t\<lparr>t_completed := (case p_completed p of None \<Rightarrow> t_completed t | Some v \<Rightarrow> v),
       t_title := (case p_title p of None \<Rightarrow> t_title t | Some v \<Rightarrow> v),
       t_due_at := (case p_due_at p of None \<Rightarrow> t_due_at t | Some v \<Rightarrow> v),
       t_remind := (case p_remind p of None \<Rightarrow> t_remind t | Some v \<Rightarrow> v),
       t_reminded := (case p_reminded p of None \<Rightarrow> t_reminded t | Some v \<Rightarrow> v),
       t_tags := (case p_tags p of None \<Rightarrow> t_tags t | Some v \<Rightarrow> Some v),
       t_order := (case p_order p of None \<Rightarrow> t_order t | Some v \<Rightarrow> v)\<rparr>"

definition new_row :: "string \<Rightarrow> string \<Rightarrow> insert_row \<Rightarrow> Todo" where
  "new_row fresh_id now row =
     \<lparr>t_id = fresh_id, t_title = n_title row, t_completed = False, t_created_at = now,
      t_user_id = n_user_id row, t_due_at = n_due_at row, t_remind = n_remind row,
      t_reminded = False, t_tags = Some (n_tags row), t_order = 0\<rparr>"

fun gateway_apply :: "string \<times> string \<Rightarrow> request \<Rightarrow> Todo list \<Rightarrow> Todo list" where
  "gateway_apply srv GetUser db = db"
| "gateway_apply srv (Insert row) db = db @ [new_row (fst srv) (snd srv) row]"
| "gateway_apply srv (Update ident p) db =
     map (\<lambda>t. if t_id t = ident then apply_patch p t else t) db"
| "gateway_apply srv (Delete ident) db = filter (\<lambda>t. t_id t \<noteq> ident) db"

section \<open>Ordering engine (\<open>handleDragEnd\<close> of \<open>TodoPage.tsx\<close>)\<close>

text \<open>\<open>Array.prototype.findIndex\<close>: the first index whose element satisfies the predicate,
  or -1.\<close>

fun findIndex :: "('a \<Rightarrow> bool) \<Rightarrow> 'a list \<Rightarrow> int" where
  "findIndex P [] = - 1"
| "findIndex P (x # xs) =
     (if P x then 0 else (let r = findIndex P xs in if r < 0 then - 1 else r + 1))"

text \<open>The start position \<open>Array.prototype.splice\<close> derives from its first argument on an
  array of length \<open>len\<close>: a negative start counts from the end, and the result is clamped
  to \<open>0..len\<close>.\<close>

definition splice_start :: "int \<Rightarrow> nat \<Rightarrow> nat" where
  "splice_start start len =
     (if start < 0 then nat (max (int len + start) 0) else min (nat start) len)"

text \<open>\<open>arrayMove\<close> is imported from the drag-and-drop library, which is not part of the
  sources; it is taken as that library defines it:
  \<^verbatim>\<open>newArray.splice(to < 0 ? newArray.length + to : to, 0, newArray.splice(from, 1)[0])\<close>
  on a copy of the array. The target is computed before the element is removed. When
  \<open>from\<close> removes nothing, the inserted element is \<open>undefined\<close> (here \<open>None\<close>).\<close>

definition arrayMove :: "'a list \<Rightarrow> int \<Rightarrow> int \<Rightarrow> 'a option list" where
  "arrayMove array from to =
     (let n = length array;
          target = (if to < 0 then int n + to else to);
          f = splice_start from n;
          removed = (if f < n then Some (array ! f) else None);
          rest = take f array @ drop (Suc f) array;
          t = splice_start target (length rest)
      in map Some (take t rest) @ [removed] @ map Some (drop t rest))"

text \<open>Array-move as the specification words it: remove the element at index \<open>i\<close>,
  reinsert it at index \<open>j\<close> of what remains.\<close>

definition array_move_spec :: "'a list \<Rightarrow> nat \<Rightarrow> nat \<Rightarrow> 'a list" where
  "array_move_spec xs i j =
     (let rest = take i xs @ drop (Suc i) xs in take j rest @ [xs ! i] @ drop j rest)"

text \<open>\<open>newOrder.map((todo, index) => ({ id: todo.id, order: index }))\<close>; reading \<open>.id\<close> of
  \<open>undefined\<close> throws.\<close>

fun index_updates :: "nat \<Rightarrow> Todo option list \<Rightarrow> error + order_update list" where
  "index_updates i [] = Inr []"
| "index_updates i (None # rest) = Inl TypeError"
| "index_updates i (Some todo # rest) =
     (case index_updates (Suc i) rest of
        Inl e \<Rightarrow> Inl e
      | Inr us \<Rightarrow> Inr ((t_id todo, int i) # us))"

text \<open>The handler receives the view (\<open>undefined\<close> while the collection is loading), the
  id of the dragged record and the record it was dropped over (\<open>null\<close> when dropped
  outside). It yields the payloads handed to \<open>reorder.mutate\<close>: none or one.\<close>

definition handleDragEnd ::
  "Todo list option \<Rightarrow> string \<Rightarrow> string option \<Rightarrow> error + order_update list list" where
  "handleDragEnd filtered active over =
     (case over of
        None \<Rightarrow> Inr []
      | Some over_id \<Rightarrow>
          if active = over_id then Inr []
          else (case filtered of
                  None \<Rightarrow> Inr []
                | Some view \<Rightarrow>
                    let oldIndex = findIndex (\<lambda>t. t_id t = active) view;
                        newIndex = findIndex (\<lambda>t. t_id t = over_id) view;
                        newOrder = arrayMove view oldIndex newIndex
                    in (case index_updates 0 newOrder of
                          Inl e \<Rightarrow> Inl e
                        | Inr updates \<Rightarrow> Inr [updates])))"

text \<open>The requests a gesture sends: \<open>useReorderTodos\<close> passes each payload to
  \<open>reorderTodos\<close>.\<close>

definition drag_requests ::
  "Todo list option \<Rightarrow> string \<Rightarrow> string option \<Rightarrow> error + request list" where
  "drag_requests filtered active over =
     (case handleDragEnd filtered active over of
        Inl e \<Rightarrow> Inl e
      | Inr calls \<Rightarrow> Inr (concat (map (\<lambda>c. snd (reorderTodos c)) calls)))"

section \<open>Plan merge engine (\<open>handleApplyOptimize\<close>)\<close>

text \<open>\<open>OptimizedItem\<close> and \<open>OptimizedPlan\<close> of \<open>types.ts\<close>.\<close>

record OptimizedItem =
  i_id :: string
  i_title :: string
  i_suggested_order :: int
  i_suggested_due_at :: "string option"
  i_suggested_remind :: bool
  i_reason :: "string option"

record OptimizedPlan =
  pl_summary :: string
  pl_items :: "OptimizedItem list"

text \<open>An element of the \<open>updates\<close> argument: \<open>{ id, order?, due_at?, remind? }\<close>.\<close>

record plan_update =
  a_id :: string
  a_order :: "int option"
  a_due_at :: "string option option"
  a_remind :: "bool option"

text \<open>\<open>u.order ?? 0\<close>.\<close>

definition order_or_zero :: "plan_update \<Rightarrow> int" where
  "order_or_zero u = (case a_order u of None \<Rightarrow> 0 | Some n \<Rightarrow> n)"

text \<open>\<open>updates.sort((a, b) => (a.order ?? 0) - (b.order ?? 0))\<close>: the sort is stable.\<close>

definition sort_updates :: "plan_update list \<Rightarrow> plan_update list" where
  "sort_updates updates = sort_key order_or_zero updates"

text \<open>The payload of the order write: the sorted updates, each with its own \<open>order\<close>,
  followed by the completed records numbered from the number of updates.\<close>

definition orderUpdates :: "Todo list \<Rightarrow> plan_update list \<Rightarrow> order_update list" where
  "orderUpdates todos updates =
     (let incompleteIds = map a_id updates;
          completed = filter t_completed todos;
          completedIds = map t_id completed
      in map (\<lambda>u. (a_id u, order_or_zero u)) (sort_updates updates) @
         map (\<lambda>(i, ident). (ident, int (length incompleteIds + i))) (enumerate 0 completedIds))"

text \<open>The loop over the (now sorted) updates: one \<open>updateTodo\<close> for every element that
  carries a due date or a remind flag; a failing update ends the loop.\<close>

fun field_updates :: "gateway \<Rightarrow> plan_update list \<Rightarrow> outcome" where
  "field_updates gw [] = (Inr (), [])"
| "field_updates gw (u # us) =
     (if a_due_at u \<noteq> None \<or> a_remind u \<noteq> None then
        (case updateTodo gw \<lparr>u_id = a_id u,
                 u_updates = empty_patch\<lparr>p_due_at := a_due_at u, p_remind := a_remind u\<rparr>\<rparr> of
           (Inl e, sent) \<Rightarrow> (Inl e, sent)
         | (Inr _, sent) \<Rightarrow> (fst (field_updates gw us), sent @ snd (field_updates gw us)))
      else field_updates gw us)"

definition handleApplyOptimize ::
  "gateway \<Rightarrow> Todo list option \<Rightarrow> plan_update list \<Rightarrow> outcome" where
  "handleApplyOptimize gw todos updates =
     (case todos of
        None \<Rightarrow> (Inr (), [])
      | Some ts \<Rightarrow>
          if ts = [] then (Inr (), [])
          else (case reorderTodos (orderUpdates ts updates) of
                  (Inl e, sent) \<Rightarrow> (Inl e, sent)
                | (Inr _, sent) \<Rightarrow>
                    (fst (field_updates gw (sort_updates updates)),
                     sent @ snd (field_updates gw (sort_updates updates)))))"

text \<open>\<open>handleApplyOptimize\<close> of the assistant panel turns the plan's items into updates
  (\<open>order: item.suggested_order - 1\<close>) and calls the page's handler.\<close>

definition item_update :: "OptimizedItem \<Rightarrow> plan_update" where
  "item_update item =
     \<lparr>a_id = i_id item,
      a_order = Some (i_suggested_order item - 1),
      a_due_at = (case i_suggested_due_at item of None \<Rightarrow> None | Some d \<Rightarrow> Some (Some d)),
      a_remind = Some (i_suggested_remind item)\<rparr>"

definition panel_handleApplyOptimize ::
  "gateway \<Rightarrow> Todo list option \<Rightarrow> OptimizedPlan option \<Rightarrow> outcome" where
  "panel_handleApplyOptimize gw todos optimizedPlan =
     (case optimizedPlan of
        None \<Rightarrow> (Inr (), [])
      | Some plan \<Rightarrow>
          if pl_items plan = [] then (Inr (), [])
          else handleApplyOptimize gw todos (map item_update (pl_items plan)))"

section \<open>Values of the runtime\<close>

text \<open>What \<open>JSON.parse\<close> returns and the adapter works on. An array carries its elements
  and, as any object, named properties that code may add to it.\<close>

datatype jsval =
  JUndefined
| JNull
| JBool bool
| JNum rat
| JStr string
| JArr "jsval list" "(string \<times> jsval) list"
| JObj "(string \<times> jsval) list"

text \<open>Boolean coercion (\<open>Boolean(v)\<close>, \<open>!v\<close>, \<open>v || w\<close>).\<close>

fun truthy :: "jsval \<Rightarrow> bool" where
  "truthy JUndefined = False"
| "truthy JNull = False"
| "truthy (JBool b) = b"
| "truthy (JNum r) = (r \<noteq> 0)"
| "truthy (JStr s) = (s \<noteq> [])"
| "truthy (JArr es ps) = True"
| "truthy (JObj ps) = True"

fun isArray :: "jsval \<Rightarrow> bool" where
  "isArray (JArr es ps) = True"
| "isArray v = False"

definition lookup :: "(string \<times> jsval) list \<Rightarrow> string \<Rightarrow> jsval" where
  "lookup ps k = (case map_of ps k of None \<Rightarrow> JUndefined | Some v \<Rightarrow> v)"

text \<open>Reading a named property (\<open>v.k\<close>, for the names the adapter uses: none of them is
  built in): \<open>null\<close> and \<open>undefined\<close> throw, a primitive has no such property.\<close>

fun get_prop :: "jsval \<Rightarrow> string \<Rightarrow> error + jsval" where
  "get_prop JUndefined k = Inl TypeError"
| "get_prop JNull k = Inl TypeError"
| "get_prop (JObj ps) k = Inr (lookup ps k)"
| "get_prop (JArr es ps) k = Inr (lookup ps k)"
| "get_prop v k = Inr JUndefined"

text \<open>Writing a named property (\<open>v.k = x\<close>) in module code, which is strict: only objects
  and arrays take it.\<close>

fun set_prop :: "jsval \<Rightarrow> string \<Rightarrow> jsval \<Rightarrow> error + jsval" where
  "set_prop (JObj ps) k x = Inr (JObj (AList.update k x ps))"
| "set_prop (JArr es ps) k x = Inr (JArr es (AList.update k x ps))"
| "set_prop v k x = Inl TypeError"

definition bindE :: "error + 'a \<Rightarrow> ('a \<Rightarrow> error + 'b) \<Rightarrow> error + 'b" where
  "bindE m f = (case m of Inl e \<Rightarrow> Inl e | Inr v \<Rightarrow> f v)"

section \<open>Generation service (\<open>gemini.ts\<close>)\<close>

text \<open>A prompt is its template and the values embedded in it; the fixed instruction text
  of each template is left out.\<close>

type_synonym brief_line = "string \<times> string option \<times> string list \<times> bool"
type_synonym optimize_line = "nat \<times> string \<times> string \<times> string option"

datatype prompt =
  ParseTodoPrompt string string
| BriefPrompt "brief_line list"
| OptimizePrompt string "optimize_line list"

record gen_request =
  g_prompt :: prompt
  g_jsonMode :: bool

text \<open>The answer to the \<open>fetch\<close>: it fails, or its status is not ok, or it carries the text
  of the first candidate, if any.\<close>

datatype gen_response = FetchFailed | NotOk | Ok "string option"

record gen_service =
  api_key :: "string option"
  respond :: "gen_request \<Rightarrow> gen_response"

definition generateWithGemini ::
  "gen_service \<Rightarrow> prompt \<Rightarrow> bool \<Rightarrow> (error + string) \<times> gen_request list" where
  "generateWithGemini svc p jsonMode =
     (if api_key svc = None \<or> api_key svc = Some [] then (Inl GenerationError, [])
      else let req = \<lparr>g_prompt = p, g_jsonMode = jsonMode\<rparr>
           in (case respond svc req of
                 FetchFailed \<Rightarrow> (Inl GenerationError, [req])
               | NotOk \<Rightarrow> (Inl GenerationError, [req])
               | Ok None \<Rightarrow> (Inr [], [req])
               | Ok (Some text) \<Rightarrow> (Inr (trim text), [req])))"

section \<open>Natural-language intake adapter (\<open>aiService.ts\<close>)\<close>

definition getParseTodoPrompt :: "string \<Rightarrow> string \<Rightarrow> prompt" where
  "getParseTodoPrompt today userInput = ParseTodoPrompt today userInput"

text \<open>\<open>t.due_at ? ... : ""\<close>: a missing or empty date prints nothing.\<close>

definition due_part :: "string option \<Rightarrow> string option" where
  "due_part d = (case d of None \<Rightarrow> None | Some s \<Rightarrow> if s = [] then None else Some s)"

definition BRIEF_PROMPT :: "Todo list \<Rightarrow> prompt" where
  "BRIEF_PROMPT todos =
     BriefPrompt (map (\<lambda>t. (t_title t, due_part (t_due_at t),
                             (case t_tags t of None \<Rightarrow> [] | Some ts \<Rightarrow> ts),
                             t_completed t)) todos)"

definition getOptimizePrompt :: "string \<Rightarrow> Todo list \<Rightarrow> prompt" where
  "getOptimizePrompt today todos =
     OptimizePrompt today
       (map (\<lambda>(i, t). (i + 1, t_id t, t_title t, due_part (t_due_at t)))
          (enumerate 0 (filter (\<lambda>t. \<not> t_completed t) todos)))"

subsection \<open>Response decoding\<close>

text \<open>Three backticks.\<close>

definition fence :: string where
  "fence = [CHR 0x60, CHR 0x60, CHR 0x60]"

text \<open>The second alternative of the expression
  \<^verbatim>\<open>/^```json\s*|\s*```$/g\<close>: the leftmost position from which the text is white space
  followed by three backticks and the end of the text; the text is cut there.\<close>

fun strip_tail :: "string \<Rightarrow> string" where
  "strip_tail [] = []"
| "strip_tail (c # cs) =
     (if dropWhile is_space (c # cs) = fence then []
      else c # strip_tail cs)"

text \<open>\<open>raw.replace(/^```json\s*|\s*```$/g, "")\<close>: at position 0 the first alternative is
  tried first and takes the tag and all white space after it; the search for the second
  alternative goes on behind it.\<close>

definition strip_fences :: "string \<Rightarrow> string" where
  "strip_fences raw =
     (if prefix (fence @ ''json'') raw
      then strip_tail (dropWhile is_space (drop 7 raw))
      else strip_tail raw)"

text \<open>\<open>JSON.parse\<close> belongs to the runtime. Two facts of it are fixed here: the text
  \<open>{}\<close> is the empty object, and a text whose first character after JSON white space
  cannot begin a JSON value is a syntax error. Everything else is the parameter
  \<open>grammar\<close>.\<close>

definition json_space :: "char \<Rightarrow> bool" where
  "json_space c = (of_char c \<in> {9, 10, 13, 32 :: nat})"

definition json_value_start :: "char \<Rightarrow> bool" where
  "json_value_start c =
     (c \<in> set (''{[-0123456789tfn'' @ [CHR 0x22]))"

definition JSON_parse :: "(string \<Rightarrow> error + jsval) \<Rightarrow> string \<Rightarrow> error + jsval" where
  "JSON_parse grammar s =
     (if s = ''{}'' then Inr (JObj [])
      else (case dropWhile json_space s of
              [] \<Rightarrow> Inl SyntaxError
            | c # cs \<Rightarrow> if json_value_start c then grammar s else Inl SyntaxError))"

definition parseJson :: "(string \<Rightarrow> error + jsval) \<Rightarrow> string \<Rightarrow> error + jsval" where
  "parseJson parse raw = parse (trim (strip_fences raw))"

subsection \<open>Single-task parse path\<close>

text \<open>The statements of \<open>parseNaturalLanguageTodo\<close> after decoding.\<close>

definition fallback :: "string \<Rightarrow> jsval \<Rightarrow> error + jsval" where
  "fallback userInput parsed =
     bindE (get_prop parsed ''title'') (\<lambda>title.
     bindE (get_prop parsed ''tags'') (\<lambda>tags.
     bindE (if \<not> truthy title \<or> \<not> isArray tags
            then bindE (set_prop parsed ''title''
                          (if truthy title then title else JStr (take 200 userInput))) (\<lambda>p1.
                 bindE (get_prop p1 ''tags'') (\<lambda>tags1.
                 set_prop p1 ''tags'' (if isArray tags1 then tags1 else JArr [] [])))
            else Inr parsed) (\<lambda>p2.
     bindE (get_prop p2 ''due_at'') (\<lambda>due.
     bindE (set_prop p2 ''due_at'' (if truthy due then due else JNull)) (\<lambda>p3.
     bindE (get_prop p3 ''remind'') (\<lambda>remind.
     set_prop p3 ''remind'' (JBool (truthy remind))))))))"

definition parseNaturalLanguageTodo ::
  "gen_service \<Rightarrow> (string \<Rightarrow> error + jsval) \<Rightarrow> string \<Rightarrow> string
     \<Rightarrow> (error + jsval) \<times> gen_request list" where
  "parseNaturalLanguageTodo svc parse today userInput =
     (case generateWithGemini svc (getParseTodoPrompt today userInput) True of
        (Inl e, sent) \<Rightarrow> (Inl e, sent)
      | (Inr text, sent) \<Rightarrow> (bindE (parseJson parse text) (fallback userInput), sent))"

subsection \<open>Brief and plan paths\<close>

definition getDailyBrief ::
  "gen_service \<Rightarrow> Todo list \<Rightarrow> (error + string) \<times> gen_request list" where
  "getDailyBrief svc todos =
     (if length todos = 0 then (Inr ''No tasks yet. Add some to get your daily brief!'', [])
      else (case generateWithGemini svc (BRIEF_PROMPT todos) False of
              (Inl e, sent) \<Rightarrow> (Inl e, sent)
            | (Inr text, sent) \<Rightarrow> (Inr (trim text), sent)))"

definition plan_defaults :: "jsval \<Rightarrow> error + jsval" where
  "plan_defaults plan =
     bindE (get_prop plan ''items'') (\<lambda>items.
     bindE (if \<not> isArray items then set_prop plan ''items'' (JArr [] []) else Inr plan) (\<lambda>p1.
     bindE (get_prop p1 ''summary'') (\<lambda>summary.
     if \<not> truthy summary
     then set_prop p1 ''summary'' (JStr ''Optimized order and suggestions below.'')
     else Inr p1)))"

definition getOptimizedPlan ::
  "gen_service \<Rightarrow> (string \<Rightarrow> error + jsval) \<Rightarrow> string \<Rightarrow> Todo list
     \<Rightarrow> (error + jsval) \<times> gen_request list" where
  "getOptimizedPlan svc parse today todos =
     (let incomplete = filter (\<lambda>t. \<not> t_completed t) todos
      in if length incomplete = 0
         then (Inr (JObj [(''summary'', JStr ''All done! No tasks to optimize.''),
                          (''items'', JArr [] [])]), [])
         else (case generateWithGemini svc (getOptimizePrompt today todos) True of
                 (Inl e, sent) \<Rightarrow> (Inl e, sent)
               | (Inr text, sent) \<Rightarrow> (bindE (parseJson parse text) plan_defaults, sent)))"

section \<open>Sample inputs\<close>

text \<open>A record with the given id, title and completion state; a gateway with a signed-in
  user that accepts every request; a generation service with a key that answers with a
  fixed text.\<close>

definition sample_todo :: "string \<Rightarrow> string \<Rightarrow> bool \<Rightarrow> Todo" where
  "sample_todo ident title completed =
     \<lparr>t_id = ident, t_title = title, t_completed = completed, t_created_at = ''2024-06-01'',
      t_user_id = ''00000000-0000-4000-8000-0000000000ff'', t_due_at = None, t_remind = False,
      t_reminded = False, t_tags = None, t_order = 0\<rparr>"

definition sample_gateway :: gateway where
  "sample_gateway =
     \<lparr>gw_user = Some ''00000000-0000-4000-8000-0000000000ff'', gw_fails = (\<lambda>r. False)\<rparr>"

definition sample_service :: "string \<Rightarrow> gen_service" where
  "sample_service text = \<lparr>api_key = Some ''key'', respond = (\<lambda>r. Ok (Some text))\<rparr>"

text \<open>A text between an opening fence tagged \<open>json\<close> and a closing fence, and between
  bare fences; \<open>w1\<close> and \<open>w2\<close> separate the text from the fences.\<close>

definition json_fenced :: "string \<Rightarrow> string \<Rightarrow> string \<Rightarrow> string" where
  "json_fenced w1 t w2 = fence @ ''json'' @ w1 @ t @ w2 @ fence"

definition bare_fenced :: "string \<Rightarrow> string \<Rightarrow> string \<Rightarrow> string" where
  "bare_fenced w1 t w2 = fence @ w1 @ t @ w2 @ fence"

text \<open>The empty object in tagged fences, each on a line of its own.\<close>

definition sample_response :: string where
  "sample_response = json_fenced [CHR 0x0A] ''{}'' [CHR 0x0A]"

text \<open>A view of three records, a collection of two incomplete records and a completed
  one, and a plan item with a given suggested order.\<close>

definition sample_view :: "Todo list" where
  "sample_view = [sample_todo ''a'' ''write report'' False, sample_todo ''b'' ''buy milk'' False,
                  sample_todo ''c'' ''call mom'' True]"

definition sample_collection :: "Todo list" where
  "sample_collection =
     [sample_todo ''00000000-0000-4000-8000-00000000000a'' ''write report'' False,
      sample_todo ''00000000-0000-4000-8000-00000000000b'' ''buy milk'' False,
      sample_todo ''00000000-0000-4000-8000-00000000000d'' ''call mom'' True]"

definition sample_item :: "string \<Rightarrow> int \<Rightarrow> OptimizedItem" where
  "sample_item ident n =
     \<lparr>i_id = ident, i_title = ''task'', i_suggested_order = n, i_suggested_due_at = None,
      i_suggested_remind = False, i_reason = None\<rparr>"

text \<open>A plan for that collection: it covers the two incomplete records and suggests
  order 1 for both.\<close>

definition sample_plan :: OptimizedPlan where
  "sample_plan =
     \<lparr>pl_summary = ''Do both first.'',
      pl_items = [sample_item ''00000000-0000-4000-8000-00000000000a'' 1,
                  sample_item ''00000000-0000-4000-8000-00000000000b'' 1]\<rparr>"

section \<open>Filter pipeline: search\<close>

lemma includes_str_sublist: "includes_str s q \<longleftrightarrow> sublist q s"
  by (induction s) (auto simp: sublist_Cons_right)

lemma lower_examples:
  "toLowerCase ''Buy'' = ''buy''" "toLowerCase ''  Buy'' = ''  buy''"
  "toLowerCase ''buy milk'' = ''buy milk''"
  by code_simp+

lemma includes_examples:
  "includes_str ''buy milk'' ''buy''" "\<not> includes_str ''buy milk'' ''  buy''"
  by code_simp+

lemma search_keeps_Buy: "t_title todo = ''buy milk'' \<Longrightarrow> search_keeps ''Buy'' todo"
  unfolding search_keeps_def by (simp only: lower_examples includes_examples) simp

lemma search_keeps_spaces_Buy:
  "t_title todo = ''buy milk'' \<Longrightarrow> \<not> search_keeps ''  Buy'' todo"
  unfolding search_keeps_def by (simp only: lower_examples includes_examples) simp

text \<open>C5, as stated, at its own example: the query \<open>"  Buy"\<close> with two leading spaces does
  not match the title \<open>"buy milk"\<close>; the search clause lower-cases the query and does not
  trim it.\<close>

theorem search_untrimmed_query_counterexample:
  "\<not> search_keeps ''  Buy'' (sample_todo ''1'' ''buy milk'' False)"
  by (rule search_keeps_spaces_Buy) (simp add: sample_todo_def)

text \<open>C5, amended: a record passes the search clause if and only if its lower-cased
  title contains the lower-cased query, exactly as typed, as a substring. For a record
  titled \<open>"buy milk"\<close> the query \<open>"Buy"\<close> matches and the query \<open>"  Buy"\<close> does not.\<close>

theorem search_filter_substring:
  "(search_keeps q todo \<longleftrightarrow> sublist (toLowerCase q) (toLowerCase (t_title todo))) \<and>
   (t_title todo = ''buy milk'' \<longrightarrow>
      search_keeps ''Buy'' todo \<and> \<not> search_keeps ''  Buy'' todo)"
proof -
  have "search_keeps q todo \<longleftrightarrow> sublist (toLowerCase q) (toLowerCase (t_title todo))"
    by (auto simp: search_keeps_def includes_str_sublist toLowerCase_def)
  then show ?thesis
    using search_keeps_Buy search_keeps_spaces_Buy by blast
qed

theorem search_filter_substring_witness:
  "t_title (sample_todo ''1'' ''buy milk'' False) = ''buy milk'' \<and>
   search_keeps ''Buy'' (sample_todo ''1'' ''buy milk'' False) \<and>
   sublist (toLowerCase ''Buy'') (toLowerCase (t_title (sample_todo ''1'' ''buy milk'' False)))"
proof -
  have t: "t_title (sample_todo ''1'' ''buy milk'' False) = ''buy milk''"
    by (simp add: sample_todo_def)
  from search_filter_substring [of "''Buy''" "sample_todo ''1'' ''buy milk'' False"] t
  show ?thesis by blast
qed

section \<open>Brief and plan paths: empty collections\<close>

text \<open>C8: on a collection of zero records \<open>getDailyBrief\<close> returns its fixed message and
  sends nothing to the generation service; on a collection without incomplete records
  \<open>getOptimizedPlan\<close> returns the plan with the empty list of items and sends nothing.\<close>

theorem empty_collection_short_circuit:
  "getDailyBrief svc [] = (Inr ''No tasks yet. Add some to get your daily brief!'', []) \<and>
   (filter (\<lambda>t. \<not> t_completed t) todos = [] \<longrightarrow>
      getOptimizedPlan svc parse today todos =
        (Inr (JObj [(''summary'', JStr ''All done! No tasks to optimize.''),
                    (''items'', JArr [] [])]), []))"
  by (simp add: getDailyBrief_def getOptimizedPlan_def)

theorem empty_collection_short_circuit_witness:
  "filter (\<lambda>t. \<not> t_completed t) [sample_todo ''1'' ''done'' True] = [] \<and>
   getDailyBrief (sample_service ''hello'') [] =
     (Inr ''No tasks yet. Add some to get your daily brief!'', []) \<and>
   getOptimizedPlan (sample_service ''hello'') (JSON_parse (\<lambda>s. Inl SyntaxError))
       ''2024-06-01'' [sample_todo ''1'' ''done'' True] =
     (Inr (JObj [(''summary'', JStr ''All done! No tasks to optimize.''),
                 (''items'', JArr [] [])]), [])"
proof -
  have e: "filter (\<lambda>t. \<not> t_completed t) [sample_todo ''1'' ''done'' True] = []"
    by (simp add: sample_todo_def)
  from empty_collection_short_circuit
         [of "sample_service ''hello''" "[sample_todo ''1'' ''done'' True]"
             "JSON_parse (\<lambda>s. Inl SyntaxError)" "''2024-06-01''"] e
  show ?thesis by blast
qed

section \<open>Validation in the mutating operations\<close>

text \<open>The four operations that parse their input fail with a validation error before
  they send anything.\<close>

lemma validation_precedes_requests:
  "\<not> CreateTodoSchema ci \<Longrightarrow> createTodo gw ci = (Inl ValidationError, [])"
  "\<not> UpdateTodoSchema ui \<Longrightarrow> updateTodo gw ui = (Inl ValidationError, [])"
  "\<not> is_uuid ident \<Longrightarrow> toggleTodo gw ident b = (Inl ValidationError, [])"
  "\<not> is_uuid ident \<Longrightarrow> deleteTodo gw ident = (Inl ValidationError, [])"
  by (simp_all add: createTodo_def updateTodo_def toggleTodo_def deleteTodo_def)

lemma not_a_uuid: "\<not> is_uuid ''not-a-uuid''"
  by (simp add: is_uuid_def)

text \<open>C4 at the input \<open>reorderTodos([{ id: "not-a-uuid", order: 0 }])\<close>: the id is not a
  valid identifier, yet \<open>reorderTodos\<close> raises nothing and sends the update request for it,
  where \<open>toggleTodo\<close> on the same id fails with a validation error and sends nothing.\<close>

theorem reorderTodos_sends_invalid_id:
  "\<not> is_uuid ''not-a-uuid'' \<and>
   reorderTodos [(''not-a-uuid'', 0)] =
     (Inr (), [Update ''not-a-uuid'' (empty_patch\<lparr>p_order := Some 0\<rparr>)]) \<and>
   toggleTodo gw ''not-a-uuid'' True = (Inl ValidationError, [])"
  by (simp add: not_a_uuid reorderTodos_def order_request_def toggleTodo_def)

section \<open>Creation stores the trimmed title\<close>

lemma trim_all_space: "list_all is_space s \<Longrightarrow> trim s = []"
  by (auto simp: trim_def trimStart_def trimEnd_def list_all_iff dest: set_dropWhileD)

text \<open>C10: for an input that passes \<open>CreateTodoSchema\<close> (a title of 1 to 200 code units)
  and a signed-in user, \<open>createTodo\<close> sends one insert whose title is the trimmed input
  title, and succeeds when the gateway reports no error. When the title consists of white
  space only, the inserted and persisted title is the empty string, and the persisted row
  fails \<open>TodoSchema\<close>.\<close>

theorem createTodo_stores_trimmed_title:
  assumes "CreateTodoSchema input" and "gw_user gw = Some uid"
  shows "\<exists>row. snd (createTodo gw input) = [GetUser, Insert row] \<and>
           n_title row = trim (c_title input) \<and>
           (\<not> gw_fails gw (Insert row) \<longrightarrow> fst (createTodo gw input) = Inr ()) \<and>
           t_title (last (gateway_apply srv (Insert row) db)) = trim (c_title input) \<and>
           (list_all is_space (c_title input) \<longrightarrow>
              n_title row = [] \<and>
              t_title (last (gateway_apply srv (Insert row) db)) = [] \<and>
              \<not> TodoSchema (last (gateway_apply srv (Insert row) db)))"
  using assms
  by (auto simp: createTodo_def Let_def new_row_def TodoSchema_def trim_all_space)

theorem createTodo_stores_trimmed_title_witness:
  "CreateTodoSchema \<lparr>c_title = ''   '', c_due_at = None, c_remind = None, c_tags = None\<rparr> \<and>
   gw_user sample_gateway = Some ''00000000-0000-4000-8000-0000000000ff'' \<and>
   list_all is_space ''   '' \<and>
   (\<exists>row. createTodo sample_gateway
             \<lparr>c_title = ''   '', c_due_at = None, c_remind = None, c_tags = None\<rparr> =
             (Inr (), [GetUser, Insert row]) \<and>
          n_title row = [] \<and>
          \<not> TodoSchema (last (gateway_apply (''00000000-0000-4000-8000-0000000000aa'', ''now'') (Insert row) [])))"
proof -
  let ?input = "\<lparr>c_title = ''   '', c_due_at = None, c_remind = None, c_tags = None\<rparr>"
  have v: "CreateTodoSchema ?input" by (simp add: CreateTodoSchema_def)
  have u: "gw_user sample_gateway = Some ''00000000-0000-4000-8000-0000000000ff''"
    by (simp add: sample_gateway_def)
  have w: "list_all is_space ''   ''" by (simp add: is_space_def)
  have a: "\<And>r. \<not> gw_fails sample_gateway r" by (simp add: sample_gateway_def)
  from createTodo_stores_trimmed_title [OF v u, of "(''00000000-0000-4000-8000-0000000000aa'', ''now'')" "[]"]
  obtain row where r: "snd (createTodo sample_gateway ?input) = [GetUser, Insert row]"
      "fst (createTodo sample_gateway ?input) = Inr ()" "n_title row = []"
      "\<not> TodoSchema (last (gateway_apply (''00000000-0000-4000-8000-0000000000aa'', ''now'') (Insert row) []))"
    using a w by auto
  then have "createTodo sample_gateway ?input = (Inr (), [GetUser, Insert row])"
    by (simp add: prod_eq_iff)
  with v u w r show ?thesis by blast
qed

section \<open>Response decoding: code fences\<close>

lemma fence_not_space: "\<not> is_space (CHR 0x60)"
  by (simp add: is_space_def)

lemma dropWhile_fence: "dropWhile is_space fence = fence"
  by (simp add: fence_def fence_not_space)

lemma dropWhile_space_fence:
  assumes "list_all is_space w"
  shows "dropWhile is_space (y @ w @ fence) = fence \<longleftrightarrow> list_all is_space y"
proof
  assume "list_all is_space y"
  with assms have "\<forall>c \<in> set (y @ w). is_space c" by (auto simp: list_all_iff)
  then have "dropWhile is_space ((y @ w) @ fence) = dropWhile is_space fence"
    by (intro dropWhile_append2) blast
  then show "dropWhile is_space (y @ w @ fence) = fence"
    by (simp add: dropWhile_fence)
next
  assume eq: "dropWhile is_space (y @ w @ fence) = fence"
  show "list_all is_space y"
  proof (rule ccontr)
    assume "\<not> list_all is_space y"
    then obtain c where c: "c \<in> set y" "\<not> is_space c" by (auto simp: list_all_iff)
    then have "dropWhile is_space (y @ w @ fence) = dropWhile is_space y @ w @ fence"
      by simp
    moreover from c have "dropWhile is_space y \<noteq> []" by auto
    ultimately have "length (dropWhile is_space (y @ w @ fence)) > length fence"
      by (cases "dropWhile is_space y") auto
    with eq show False by simp
  qed
qed

lemma trimEnd_all_space: "list_all is_space x \<Longrightarrow> trimEnd x = []"
  by (auto simp: trimEnd_def list_all_iff)

lemma trimEnd_Cons:
  "trimEnd (c # x) = (if list_all is_space (c # x) then [] else c # trimEnd x)"
proof (cases "list_all is_space x")
  case True
  then have "dropWhile is_space (rev x @ [c]) = dropWhile is_space [c]"
    by (intro dropWhile_append2) (auto simp: list_all_iff)
  then have "trimEnd (c # x) = rev (dropWhile is_space [c])"
    by (simp only: trimEnd_def rev.simps)
  with True show ?thesis
    by (cases "is_space c") (simp_all add: trimEnd_all_space)
next
  case False
  then obtain d where "d \<in> set (rev x)" "\<not> is_space d" by (auto simp: list_all_iff)
  then have "dropWhile is_space (rev x @ [c]) = dropWhile is_space (rev x) @ [c]"
    by simp
  then have "trimEnd (c # x) = c # trimEnd x"
    by (simp only: trimEnd_def rev.simps rev_append) simp
  with False show ?thesis by simp
qed

lemma strip_tail_closing:
  assumes "list_all is_space w"
  shows "strip_tail (x @ w @ fence) = trimEnd x"
proof (induction x)
  case Nil
  from dropWhile_space_fence [OF assms, of "[]"]
  have "dropWhile is_space (w @ fence) = fence" by simp
  then show ?case
    by (cases "w @ fence") (simp_all add: trimEnd_def fence_def)
next
  case (Cons c x)
  from dropWhile_space_fence [OF assms, of "c # x"]
  have "dropWhile is_space (c # x @ w @ fence) = fence \<longleftrightarrow> list_all is_space (c # x)"
    by simp
  then have "strip_tail ((c # x) @ w @ fence) =
      (if list_all is_space (c # x) then [] else c # strip_tail (x @ w @ fence))"
    by (simp only: append_Cons strip_tail.simps)
  with Cons show ?case
    by (simp only: trimEnd_Cons)
qed

lemma strip_tail_id: "\<not> suffix fence t \<Longrightarrow> strip_tail t = t"
proof (induction t)
  case Nil
  then show ?case by simp
next
  case (Cons c t)
  have "dropWhile is_space (c # t) \<noteq> fence"
  proof
    assume "dropWhile is_space (c # t) = fence"
    then have "suffix fence (c # t)" by (metis suffix_dropWhile)
    with Cons.prems show False by simp
  qed
  moreover from Cons.prems have "\<not> suffix fence t" by (auto simp: suffix_Cons)
  ultimately show ?case using Cons.IH by (simp del: dropWhile.simps)
qed

lemma trimEnd_trimEnd: "trimEnd (trimEnd x) = trimEnd x"
  by (simp add: trimEnd_def)

lemma trimStart_trim: "trimStart (trim t) = trim t"
proof (cases "trimStart t")
  case Nil
  then have "trim t = []" by (simp only: trim_def) (simp add: trimEnd_def)
  then show ?thesis by (simp add: trimStart_def)
next
  case (Cons c y)
  then have "\<not> is_space c"
    using hd_dropWhile [of is_space t] by (auto simp: trimStart_def)
  then have "trim t = c # trimEnd y"
    by (simp only: trim_def Cons trimEnd_Cons) simp
  with \<open>\<not> is_space c\<close> show ?thesis by (simp add: trimStart_def)
qed

lemma trim_trimEnd_trimStart: "trim (trimEnd (trimStart t)) = trimEnd (trimStart t)"
proof -
  have "trim (trim t) = trimEnd (trimStart (trim t))" by (simp add: trim_def)
  also have "\<dots> = trimEnd (trim t)" by (simp add: trimStart_trim)
  also have "\<dots> = trim t" by (simp add: trim_def trimEnd_trimEnd)
  finally show ?thesis by (simp add: trim_def)
qed

lemma clean_json_fenced:
  assumes "list_all is_space w1" and "list_all is_space w2"
  shows "trim (strip_fences (json_fenced w1 t w2)) = trim t"
proof -
  have p: "prefix (fence @ ''json'') (json_fenced w1 t w2)"
    by (simp add: json_fenced_def)
  have d: "drop 7 (json_fenced w1 t w2) = w1 @ t @ w2 @ fence"
    by (simp add: json_fenced_def fence_def)
  from assms(1) have "dropWhile is_space (w1 @ t @ w2 @ fence) = dropWhile is_space (t @ w2 @ fence)"
    by (simp add: list_all_iff)
  also have "\<dots> = trimStart t @ (if list_all is_space t then [] else w2) @ fence"
  proof (cases "list_all is_space t")
    case True
    with dropWhile_space_fence [OF assms(2), of t] show ?thesis
      by (simp add: trimStart_def list_all_iff)
  next
    case False
    then obtain c where "c \<in> set t" "\<not> is_space c" by (auto simp: list_all_iff)
    then have "dropWhile is_space (t @ w2 @ fence) = dropWhile is_space t @ w2 @ fence" by simp
    with False show ?thesis by (simp add: trimStart_def)
  qed
  finally have "strip_fences (json_fenced w1 t w2) =
      strip_tail (trimStart t @ (if list_all is_space t then [] else w2) @ fence)"
    using p d by (simp add: strip_fences_def)
  also have "\<dots> = trimEnd (trimStart t)"
    using assms(2) by (intro strip_tail_closing) simp
  finally show ?thesis by (simp add: trim_trimEnd_trimStart) (simp add: trim_def)
qed

text \<open>C6, amended: for every text that neither begins with the tagged opening fence nor
  ends with three backticks (no JSON text does either), and for every parser, decoding
  the text between a fence tagged \<open>json\<close> and a closing fence, with any white space
  separating it from the fences, gives what decoding the text itself gives.\<close>

theorem parseJson_json_fence_invariant:
  assumes "list_all is_space w1" and "list_all is_space w2"
    and "\<not> prefix (fence @ ''json'') t" and "\<not> suffix fence t"
  shows "parseJson parse (json_fenced w1 t w2) = parseJson parse t"
proof -
  from assms(3,4) have "strip_fences t = t"
    by (simp add: strip_fences_def strip_tail_id)
  then show ?thesis
    by (simp add: parseJson_def clean_json_fenced [OF assms(1,2)])
qed

lemma bare_clean: "trim (strip_fences (bare_fenced [CHR 0x0A] ''{}'' [CHR 0x0A])) = fence @ [CHR 0x0A] @ ''{}''"
  by code_simp

text \<open>C6, as stated, at the text \<open>{}\<close> between bare fences (three backticks, a line
  feed, the text, a line feed, three backticks): the opening fence is not removed, the
  parser receives a text that begins with a backtick and raises a syntax error, while the
  text itself decodes to the empty object.\<close>

theorem parseJson_bare_fence_counterexample:
  "\<forall>grammar. parseJson (JSON_parse grammar) (bare_fenced [CHR 0x0A] ''{}'' [CHR 0x0A]) = Inl SyntaxError \<and>
     parseJson (JSON_parse grammar) ''{}'' = Inr (JObj [])"
proof -
  have a: "trim (strip_fences ''{}'') = ''{}''" by code_simp
  have b: "JSON_parse g (fence @ [CHR 0x0A] @ ''{}'') = Inl SyntaxError" for g
    by (simp add: JSON_parse_def fence_def json_space_def json_value_start_def)
  have c: "JSON_parse g ''{}'' = Inr (JObj [])" for g
    by (simp add: JSON_parse_def)
  show ?thesis
    by (simp only: parseJson_def bare_clean a b c) simp
qed


theorem parseJson_json_fence_invariant_witness:
  "list_all is_space [CHR 0x0A] \<and>
   \<not> prefix (fence @ ''json'') ''{}'' \<and>
   \<not> suffix fence ''{}'' \<and>
   parseJson (JSON_parse (\<lambda>s. Inl SyntaxError)) sample_response = Inr (JObj [])"
proof -
  have w: "list_all is_space [CHR 0x0A]" by (simp add: is_space_def)
  have p: "\<not> prefix (fence @ ''json'') ''{}''" by (simp add: fence_def)
  have q: "\<not> suffix fence ''{}''" by (simp add: fence_def suffix_def)
  have a: "trim (strip_fences ''{}'') = ''{}''" by code_simp
  have "parseJson (JSON_parse (\<lambda>s. Inl SyntaxError)) ''{}'' = Inr (JObj [])"
    by (simp only: parseJson_def a) (simp add: JSON_parse_def)
  with parseJson_json_fence_invariant [OF w w p q, of "JSON_parse (\<lambda>s. Inl SyntaxError)"]
  have "parseJson (JSON_parse (\<lambda>s. Inl SyntaxError)) sample_response = Inr (JObj [])"
    by (simp only: sample_response_def)
  with w p q show ?thesis by blast
qed

section \<open>Single-task parse path: fallbacks\<close>

lemma lookup_update:
  "lookup (AList.update k v ps) k' = (if k' = k then v else lookup ps k')"
  by (simp add: lookup_def update_conv')

lemma fallback_object:
  "\<exists>ps'. fallback userInput (JObj ps) = Inr (JObj ps') \<and>
     lookup ps' ''title'' = (if truthy (lookup ps ''title'') then lookup ps ''title'' else JStr (take 200 userInput)) \<and>
     lookup ps' ''tags'' = (if isArray (lookup ps ''tags'') then lookup ps ''tags'' else JArr [] []) \<and>
     lookup ps' ''due_at'' = (if truthy (lookup ps ''due_at'') then lookup ps ''due_at'' else JNull) \<and>
     lookup ps' ''remind'' = JBool (truthy (lookup ps ''remind''))"
  by (simp add: fallback_def bindE_def lookup_update)

text \<open>C7: in the single-task parse path, when the service has answered and the answer
  decodes to an object, the returned draft is that object with: its title, or the first
  200 characters of the user's input when the title is missing or falsy; its tags, or the
  empty array when they are not an array; its due date, or \<open>null\<close> when it is missing or
  falsy; and \<open>remind\<close> coerced to a boolean.\<close>

theorem intake_fallback:
  assumes "generateWithGemini svc (getParseTodoPrompt today userInput) True = (Inr text, sent)"
    and "parseJson parse text = Inr (JObj ps)"
  shows "\<exists>ps'. parseNaturalLanguageTodo svc parse today userInput = (Inr (JObj ps'), sent) \<and>
     (\<not> truthy (lookup ps ''title'') \<longrightarrow> lookup ps' ''title'' = JStr (take 200 userInput)) \<and>
     (truthy (lookup ps ''title'') \<longrightarrow> lookup ps' ''title'' = lookup ps ''title'') \<and>
     (\<not> isArray (lookup ps ''tags'') \<longrightarrow> lookup ps' ''tags'' = JArr [] []) \<and>
     (isArray (lookup ps ''tags'') \<longrightarrow> lookup ps' ''tags'' = lookup ps ''tags'') \<and>
     (\<not> truthy (lookup ps ''due_at'') \<longrightarrow> lookup ps' ''due_at'' = JNull) \<and>
     (truthy (lookup ps ''due_at'') \<longrightarrow> lookup ps' ''due_at'' = lookup ps ''due_at'') \<and>
     lookup ps' ''remind'' = JBool (truthy (lookup ps ''remind''))"
proof -
  from fallback_object [of userInput ps] obtain ps' where
    f: "fallback userInput (JObj ps) = Inr (JObj ps')" and
    p: "lookup ps' ''title'' = (if truthy (lookup ps ''title'') then lookup ps ''title'' else JStr (take 200 userInput))"
      "lookup ps' ''tags'' = (if isArray (lookup ps ''tags'') then lookup ps ''tags'' else JArr [] [])"
      "lookup ps' ''due_at'' = (if truthy (lookup ps ''due_at'') then lookup ps ''due_at'' else JNull)"
      "lookup ps' ''remind'' = JBool (truthy (lookup ps ''remind''))"
    by blast
  have "parseNaturalLanguageTodo svc parse today userInput = (Inr (JObj ps'), sent)"
    by (simp add: parseNaturalLanguageTodo_def assms bindE_def f)
  with p show ?thesis by simp
qed

lemma fenced_empty_object: "trim (strip_fences sample_response) = ''{}''"
  by code_simp

theorem intake_fallback_witness:
  "generateWithGemini (sample_service sample_response)
      (getParseTodoPrompt ''2024-06-01'' ''call mom'') True =
     (Inr sample_response,
      [\<lparr>g_prompt = ParseTodoPrompt ''2024-06-01'' ''call mom'', g_jsonMode = True\<rparr>]) \<and>
   parseJson (JSON_parse (\<lambda>s. Inl SyntaxError))
      sample_response = Inr (JObj []) \<and>
   (\<exists>ps'. parseNaturalLanguageTodo
            (sample_service sample_response)
            (JSON_parse (\<lambda>s. Inl SyntaxError)) ''2024-06-01'' ''call mom'' =
          (Inr (JObj ps'),
           [\<lparr>g_prompt = ParseTodoPrompt ''2024-06-01'' ''call mom'', g_jsonMode = True\<rparr>]) \<and>
        lookup ps' ''title'' = JStr ''call mom'' \<and>
        lookup ps' ''tags'' = JArr [] [] \<and>
        lookup ps' ''due_at'' = JNull \<and>
        lookup ps' ''remind'' = JBool False)"
proof -
  let ?text = "sample_response"
  let ?req = "\<lparr>g_prompt = ParseTodoPrompt ''2024-06-01'' ''call mom'', g_jsonMode = True\<rparr>"
  have t: "trim ?text = ?text" by code_simp
  have g: "generateWithGemini (sample_service ?text)
             (getParseTodoPrompt ''2024-06-01'' ''call mom'') True = (Inr ?text, [?req])"
    by (simp add: generateWithGemini_def sample_service_def getParseTodoPrompt_def t)
  have d: "parseJson (JSON_parse (\<lambda>s. Inl SyntaxError)) ?text = Inr (JObj [])"
    by (simp add: parseJson_def fenced_empty_object JSON_parse_def)
  have l: "lookup [] ''title'' = JUndefined" "lookup [] ''tags'' = JUndefined"
    "lookup [] ''due_at'' = JUndefined" "lookup [] ''remind'' = JUndefined"
    by (simp_all add: lookup_def)
  from intake_fallback [OF g d] l g d show ?thesis
    by simp
qed

section \<open>Ordering engine: the payload of a drag gesture\<close>

lemma findIndex_lower: "- 1 \<le> findIndex P xs"
  by (induction xs) (auto simp: Let_def)

lemma findIndex_found:
  "\<exists>t \<in> set xs. P t \<Longrightarrow>
     0 \<le> findIndex P xs \<and> nat (findIndex P xs) < length xs \<and> P (xs ! nat (findIndex P xs))"
proof (induction xs)
  case Nil
  then show ?case by simp
next
  case (Cons x xs)
  show ?case
  proof (cases "P x")
    case True
    then show ?thesis by simp
  next
    case False
    with Cons.prems have "\<exists>t \<in> set xs. P t" by auto
    from Cons.IH [OF this] False show ?thesis
      by (auto simp: Let_def nat_add_distrib)
  qed
qed

text \<open>Dropping a record on itself, or outside every record, writes nothing.\<close>

lemma handleDragEnd_no_move:
  "handleDragEnd filtered a (Some a) = Inr []" "handleDragEnd filtered a None = Inr []"
  by (simp_all add: handleDragEnd_def)

lemma arrayMove_in_range:
  assumes "i < length xs" and "j < length xs"
  shows "arrayMove xs (int i) (int j) = map Some (array_move_spec xs i j)"
proof -
  have l: "length (take i xs @ drop (Suc i) xs) = length xs - 1"
    using assms(1) by simp
  have "splice_start (int i) (length xs) = i"
    using assms(1) by (simp add: splice_start_def)
  moreover have "splice_start (int j) (length xs - 1) = j"
    using assms(2) by (simp add: splice_start_def)
  ultimately show ?thesis
    using assms(1) l by (simp add: arrayMove_def array_move_spec_def Let_def del: length_append)
qed

lemma index_updates_Some:
  "index_updates k (map Some xs) = Inr (map (\<lambda>(i, t). (t_id t, int i)) (enumerate k xs))"
  by (induction xs arbitrary: k) simp_all

lemma insert_at_mset: "mset (take j r @ [x] @ drop j r) = add_mset x (mset r)"
proof -
  have "mset (take j r) + mset (drop j r) = mset r"
    by (metis append_take_drop_id mset_append)
  then show ?thesis by simp
qed

lemma insert_at_nth: "j \<le> length r \<Longrightarrow> (take j r @ [x] @ drop j r) ! j = x"
  by (simp add: nth_append)

lemma insert_at_remove:
  "j \<le> length r \<Longrightarrow>
     take j (take j r @ [x] @ drop j r) @ drop (Suc j) (take j r @ [x] @ drop j r) = r"
  by simp

lemma remove_at_mset: "i < length xs \<Longrightarrow> add_mset (xs ! i) (mset (take i xs @ drop (Suc i) xs)) = mset xs"
proof -
  assume "i < length xs"
  then have "xs = take i xs @ xs ! i # drop (Suc i) xs" by (rule id_take_nth_drop)
  then have "mset xs = mset (take i xs @ xs ! i # drop (Suc i) xs)" by simp
  then show ?thesis by simp
qed

lemma array_move_spec_props:
  assumes "i < length xs" and "j < length xs"
  shows "length (array_move_spec xs i j) = length xs"
    and "mset (array_move_spec xs i j) = mset xs"
    and "array_move_spec xs i j ! j = xs ! i"
    and "take j (array_move_spec xs i j) @ drop (Suc j) (array_move_spec xs i j) =
           take i xs @ drop (Suc i) xs"
proof -
  define rest where "rest = take i xs @ drop (Suc i) xs"
  have l: "length rest = length xs - 1" using assms(1) by (simp add: rest_def)
  then have jl: "j \<le> length rest" using assms(2) by simp
  have m: "array_move_spec xs i j = take j rest @ [xs ! i] @ drop j rest"
    by (simp add: array_move_spec_def Let_def rest_def)
  show "length (array_move_spec xs i j) = length xs"
    unfolding m using assms l jl by simp
  show "mset (array_move_spec xs i j) = mset xs"
    unfolding m insert_at_mset using remove_at_mset [OF assms(1)] by (simp add: rest_def)
  show "array_move_spec xs i j ! j = xs ! i"
    unfolding m using jl by (rule insert_at_nth)
  show "take j (array_move_spec xs i j) @ drop (Suc j) (array_move_spec xs i j) =
          take i xs @ drop (Suc i) xs"
    unfolding m using insert_at_remove [OF jl] by (simp only: rest_def)
qed

lemma handleDragEnd_result:
  assumes "a \<in> t_id ` set view" and "b \<in> t_id ` set view" and "a \<noteq> b"
  defines "i \<equiv> nat (findIndex (\<lambda>t. t_id t = a) view)"
      and "j \<equiv> nat (findIndex (\<lambda>t. t_id t = b) view)"
  shows "i < length view" and "j < length view"
    and "t_id (view ! i) = a" and "t_id (view ! j) = b"
    and "handleDragEnd (Some view) a (Some b) =
           Inr [map (\<lambda>(k, t). (t_id t, int k)) (enumerate 0 (array_move_spec view i j))]"
proof -
  from assms(1) have "\<exists>t \<in> set view. t_id t = a" by auto
  from findIndex_found [OF this]
  have fa: "0 \<le> findIndex (\<lambda>t. t_id t = a) view" "i < length view" "t_id (view ! i) = a"
    by (simp_all add: i_def)
  from assms(2) have "\<exists>t \<in> set view. t_id t = b" by auto
  from findIndex_found [OF this]
  have fb: "0 \<le> findIndex (\<lambda>t. t_id t = b) view" "j < length view" "t_id (view ! j) = b"
    by (simp_all add: j_def)
  show "i < length view" "j < length view" "t_id (view ! i) = a" "t_id (view ! j) = b"
    using fa fb by simp_all
  have "findIndex (\<lambda>t. t_id t = a) view = int i" "findIndex (\<lambda>t. t_id t = b) view = int j"
    using fa(1) fb(1) by (simp_all add: i_def j_def)
  then have "arrayMove view (findIndex (\<lambda>t. t_id t = a) view) (findIndex (\<lambda>t. t_id t = b) view) =
      map Some (array_move_spec view i j)"
    using arrayMove_in_range [OF fa(2) fb(2)] by simp
  then show "handleDragEnd (Some view) a (Some b) =
           Inr [map (\<lambda>(k, t). (t_id t, int k)) (enumerate 0 (array_move_spec view i j))]"
    using assms(3) by (simp add: handleDragEnd_def Let_def index_updates_Some)
qed

lemma enumerate_ids:
  "map fst (map (\<lambda>(k, t). (t_id t, int k)) (enumerate n xs)) = map t_id xs"
  "map snd (map (\<lambda>(k, t). (t_id t, int k)) (enumerate n xs)) = map int [n..<n + length xs]"
proof -
  have f: "fst \<circ> (\<lambda>(k, t). (t_id t, int k)) = t_id \<circ> snd"
    and g: "snd \<circ> (\<lambda>(k, t). (t_id t, int k)) = int \<circ> fst"
    by (auto simp: fun_eq_iff)
  have "map fst (map (\<lambda>(k, t). (t_id t, int k)) (enumerate n xs)) =
          map t_id (map snd (enumerate n xs))"
    by (simp only: map_map f)
  then show "map fst (map (\<lambda>(k, t). (t_id t, int k)) (enumerate n xs)) = map t_id xs"
    by (simp only: map_snd_enumerate)
  have "map snd (map (\<lambda>(k, t). (t_id t, int k)) (enumerate n xs)) =
          map int (map fst (enumerate n xs))"
    by (simp only: map_map g)
  then show "map snd (map (\<lambda>(k, t). (t_id t, int k)) (enumerate n xs)) =
          map int [n..<n + length xs]"
    by (simp only: map_fst_enumerate)
qed


text \<open>C2: for a view of \<open>n\<close> records in which the dragged id and the target id both
  occur (and differ, so that the gesture writes at all), the handler issues one payload;
  its order values are \<open>0, 1, \<dots>, n - 1\<close> in sequence, its ids are the ids of the view,
  the dragged id stands at the index the target had, and without the dragged id the ids
  are in their former order.\<close>

theorem drag_reorder_contiguous:
  assumes "a \<in> t_id ` set view" and "b \<in> t_id ` set view" and "a \<noteq> b"
  shows "\<exists>us. handleDragEnd (Some view) a (Some b) = Inr [us] \<and>
           map snd us = map int [0..<length view] \<and>
           mset (map fst us) = mset (map t_id view) \<and>
           (let i = nat (findIndex (\<lambda>t. t_id t = a) view);
                j = nat (findIndex (\<lambda>t. t_id t = b) view)
            in i < length view \<and> map t_id view ! i = a \<and>
               j < length view \<and> map t_id view ! j = b \<and>
               map fst us ! j = a \<and>
               take j (map fst us) @ drop (Suc j) (map fst us) =
                 take i (map t_id view) @ drop (Suc i) (map t_id view))"
proof -
  define i where "i = nat (findIndex (\<lambda>t. t_id t = a) view)"
  define j where "j = nat (findIndex (\<lambda>t. t_id t = b) view)"
  define new where "new = array_move_spec view i j"
  define us where "us = map (\<lambda>(k, t). (t_id t, int k)) (enumerate 0 new)"
  note r = handleDragEnd_result [OF assms, folded i_def j_def]
  note p = array_move_spec_props [OF r(1) r(2), folded new_def]
  have h: "handleDragEnd (Some view) a (Some b) = Inr [us]"
    using r(5) by (simp only: us_def new_def)
  have ids: "map fst us = map t_id new" and ords: "map snd us = map int [0..<length view]"
    using enumerate_ids [of 0 new] p(1) by (simp_all add: us_def)
  have m: "mset (map fst us) = mset (map t_id view)"
    using p(2) by (simp only: ids mset_map)
  have at: "map fst us ! j = a"
    using p(1) p(3) r(2) r(3) by (simp add: ids)
  have "take j (map t_id new) @ drop (Suc j) (map t_id new) =
          map t_id (take j new @ drop (Suc j) new)"
    by (simp add: take_map drop_map)
  also have "\<dots> = map t_id (take i view @ drop (Suc i) view)"
    by (simp only: p(4))
  also have "\<dots> = take i (map t_id view) @ drop (Suc i) (map t_id view)"
    by (simp add: take_map drop_map)
  finally have others: "take j (map fst us) @ drop (Suc j) (map fst us) =
          take i (map t_id view) @ drop (Suc i) (map t_id view)"
    by (simp only: ids)
  from h ords m at others r(1-4) show ?thesis
    unfolding Let_def i_def [symmetric] j_def [symmetric] by (intro exI [of _ us]) simp
qed

lemma sample_view_drag:
  "handleDragEnd (Some sample_view) ''a'' (Some ''c'') = Inr [[(''b'', 0), (''c'', 1), (''a'', 2)]]"
  by code_simp

theorem drag_reorder_contiguous_witness:
  "''a'' \<in> t_id ` set sample_view \<and> ''c'' \<in> t_id ` set sample_view \<and> ''a'' \<noteq> ''c'' \<and>
   (\<exists>us. handleDragEnd (Some sample_view) ''a'' (Some ''c'') = Inr [us] \<and>
      map snd us = [0, 1, 2] \<and>
      mset (map fst us) = mset [''a'', ''b'', ''c''])"
proof -
  have a: "''a'' \<in> t_id ` set sample_view" and c: "''c'' \<in> t_id ` set sample_view"
    by (simp_all add: sample_view_def sample_todo_def)
  have n: "''a'' \<noteq> ''c''" by simp
  have l: "map int [0..<length sample_view] = [0, 1, 2]"
    by (simp add: sample_view_def upt_rec)
  have i: "map t_id sample_view = [''a'', ''b'', ''c'']"
    by (simp add: sample_view_def sample_todo_def)
  from drag_reorder_contiguous [OF a c n] obtain us where
    u: "handleDragEnd (Some sample_view) ''a'' (Some ''c'') = Inr [us] \<and>
        map snd us = map int [0..<length sample_view] \<and>
        mset (map fst us) = mset (map t_id sample_view) \<and>
        (let i = nat (findIndex (\<lambda>t. t_id t = ''a'') sample_view);
             j = nat (findIndex (\<lambda>t. t_id t = ''c'') sample_view)
         in i < length sample_view \<and> map t_id sample_view ! i = ''a'' \<and>
            j < length sample_view \<and> map t_id sample_view ! j = ''c'' \<and>
            map fst us ! j = ''a'' \<and>
            take j (map fst us) @ drop (Suc j) (map fst us) =
              take i (map t_id sample_view) @ drop (Suc i) (map t_id sample_view))" ..
  from u have u1: "handleDragEnd (Some sample_view) ''a'' (Some ''c'') = Inr [us]"
    by (rule conjunct1)
  from u have u2: "map snd us = [0, 1, 2]"
    by (simp only: l)
  from u have u3: "mset (map fst us) = mset [''a'', ''b'', ''c'']"
    by (simp only: i)
  from u1 u2 u3 have e: "\<exists>us. handleDragEnd (Some sample_view) ''a'' (Some ''c'') = Inr [us] \<and>
      map snd us = [0, 1, 2] \<and> mset (map fst us) = mset [''a'', ''b'', ''c'']"
    by (intro exI [of _ us] conjI)
  show ?thesis by (intro conjI) (fact a, fact c, fact n, fact e)
qed

section \<open>Ordering engine: requests sent to the gateway\<close>

lemma drag_requests_result:
  assumes "handleDragEnd filtered a over = Inr [us]"
  shows "drag_requests filtered a over = Inr (map order_request us)"
  using assms by (simp add: drag_requests_def reorderTodos_def)

text \<open>C3, as stated, at the view of three records with \<open>a\<close> dragged over \<open>c\<close>: the
  gateway receives three update requests, one for each record.\<close>

theorem drag_many_requests_counterexample:
  "drag_requests (Some sample_view) ''a'' (Some ''c'') =
     Inr [Update ''b'' (empty_patch\<lparr>p_order := Some 0\<rparr>),
          Update ''c'' (empty_patch\<lparr>p_order := Some 1\<rparr>),
          Update ''a'' (empty_patch\<lparr>p_order := Some 2\<rparr>)]"
  by (simp add: drag_requests_def sample_view_drag reorderTodos_def order_request_def)

text \<open>C3, amended: a drag gesture (dragged and target ids in the view, and different)
  makes exactly one call of the reorder mutation; its payload covers the records of the
  view (its ids are the ids of the view, each as often as the view holds it) and gives
  them the orders \<open>0, 1, \<dots>, n - 1\<close>; \<open>reorderTodos\<close> sends it to the gateway as \<open>n\<close>
  update requests, one for each element of the payload, carrying that element's id and
  order.\<close>

theorem drag_one_call_many_requests:
  assumes "a \<in> t_id ` set view" and "b \<in> t_id ` set view" and "a \<noteq> b"
  shows "\<exists>us. handleDragEnd (Some view) a (Some b) = Inr [us] \<and>
           mset (map fst us) = mset (map t_id view) \<and>
           map snd us = map int [0..<length view] \<and>
           length us = length view \<and>
           drag_requests (Some view) a (Some b) =
             Inr (map (\<lambda>u. Update (fst u) (empty_patch\<lparr>p_order := Some (snd u)\<rparr>)) us) \<and>
           length (map (\<lambda>u. Update (fst u) (empty_patch\<lparr>p_order := Some (snd u)\<rparr>)) us) =
             length view"
proof -
  define i where "i = nat (findIndex (\<lambda>t. t_id t = a) view)"
  define j where "j = nat (findIndex (\<lambda>t. t_id t = b) view)"
  define new where "new = array_move_spec view i j"
  define us where "us = map (\<lambda>(k, t). (t_id t, int k)) (enumerate 0 new)"
  note r = handleDragEnd_result [OF assms, folded i_def j_def]
  note p = array_move_spec_props [OF r(1) r(2), folded new_def]
  have h: "handleDragEnd (Some view) a (Some b) = Inr [us]"
    using r(5) by (simp only: us_def new_def)
  have ids: "map fst us = map t_id new" and ords: "map snd us = map int [0..<length view]"
    using enumerate_ids [of 0 new] p(1) by (simp_all add: us_def)
  have m: "mset (map fst us) = mset (map t_id view)"
    using p(2) by (simp only: ids mset_map)
  have "length (map snd us) = length (map int [0..<length view])"
    by (simp only: ords)
  then have l: "length us = length view" by simp
  have o: "map order_request us =
      map (\<lambda>u. Update (fst u) (empty_patch\<lparr>p_order := Some (snd u)\<rparr>)) us"
    by (simp add: order_request_def)
  have d: "drag_requests (Some view) a (Some b) =
      Inr (map (\<lambda>u. Update (fst u) (empty_patch\<lparr>p_order := Some (snd u)\<rparr>)) us)"
    using drag_requests_result [OF h] by (simp only: o)
  have n: "length (map (\<lambda>u. Update (fst u) (empty_patch\<lparr>p_order := Some (snd u)\<rparr>)) us) =
      length view"
    using l by simp
  show ?thesis
    by (intro exI [of _ us] conjI) (fact h, fact m, fact ords, fact l, fact d, fact n)
qed

theorem drag_one_call_many_requests_witness:
  "''a'' \<in> t_id ` set sample_view \<and> ''c'' \<in> t_id ` set sample_view \<and> ''a'' \<noteq> ''c'' \<and>
   (\<exists>us. handleDragEnd (Some sample_view) ''a'' (Some ''c'') = Inr [us] \<and>
      mset (map fst us) = mset [''a'', ''b'', ''c''] \<and>
      map snd us = [0, 1, 2] \<and>
      length us = 3 \<and>
      drag_requests (Some sample_view) ''a'' (Some ''c'') =
        Inr (map (\<lambda>u. Update (fst u) (empty_patch\<lparr>p_order := Some (snd u)\<rparr>)) us))"
proof -
  have a: "''a'' \<in> t_id ` set sample_view" and c: "''c'' \<in> t_id ` set sample_view"
    by (simp_all add: sample_view_def sample_todo_def)
  have n: "''a'' \<noteq> ''c''" by simp
  have l: "length sample_view = 3" by (simp add: sample_view_def)
  have o: "map int [0..<length sample_view] = [0, 1, 2]"
    by (simp add: sample_view_def upt_rec)
  have i: "map t_id sample_view = [''a'', ''b'', ''c'']"
    by (simp add: sample_view_def sample_todo_def)
  from drag_one_call_many_requests [OF a c n] obtain us where
    u: "handleDragEnd (Some sample_view) ''a'' (Some ''c'') = Inr [us] \<and>
        mset (map fst us) = mset (map t_id sample_view) \<and>
        map snd us = map int [0..<length sample_view] \<and>
        length us = length sample_view \<and>
        drag_requests (Some sample_view) ''a'' (Some ''c'') =
          Inr (map (\<lambda>u. Update (fst u) (empty_patch\<lparr>p_order := Some (snd u)\<rparr>)) us) \<and>
        length (map (\<lambda>u. Update (fst u) (empty_patch\<lparr>p_order := Some (snd u)\<rparr>)) us) =
          length sample_view" ..
  from u have u1: "handleDragEnd (Some sample_view) ''a'' (Some ''c'') = Inr [us]"
    by (rule conjunct1)
  from u have u2: "mset (map fst us) = mset [''a'', ''b'', ''c'']"
    by (simp only: i)
  from u have u3: "map snd us = [0, 1, 2]"
    by (simp only: o)
  from u have u4: "length us = 3"
    by (simp only: l)
  from u have u5: "drag_requests (Some sample_view) ''a'' (Some ''c'') =
      Inr (map (\<lambda>u. Update (fst u) (empty_patch\<lparr>p_order := Some (snd u)\<rparr>)) us)"
    by (elim conjE)
  have e: "\<exists>us. handleDragEnd (Some sample_view) ''a'' (Some ''c'') = Inr [us] \<and>
      mset (map fst us) = mset [''a'', ''b'', ''c''] \<and>
      map snd us = [0, 1, 2] \<and>
      length us = 3 \<and>
      drag_requests (Some sample_view) ''a'' (Some ''c'') =
        Inr (map (\<lambda>u. Update (fst u) (empty_patch\<lparr>p_order := Some (snd u)\<rparr>)) us)"
    by (intro exI [of _ us] conjI) (fact u1, fact u2, fact u3, fact u4, fact u5)
  show ?thesis by (intro conjI) (fact a, fact c, fact n, fact e)
qed

section \<open>Ordering engine: frame condition\<close>

lemma drag_requests_order_only:
  assumes "drag_requests filtered a over = Inr rs" and "r \<in> set rs"
  shows "\<exists>ident n. r = Update ident (empty_patch\<lparr>p_order := Some n\<rparr>)"
proof -
  from assms(1) obtain calls where
    "rs = concat (map (\<lambda>c. snd (reorderTodos c)) calls)"
    by (auto simp: drag_requests_def split: sum.splits)
  with assms(2) obtain u where "r = order_request u"
    by (auto simp: reorderTodos_def)
  then show ?thesis by (auto simp: order_request_def)
qed

lemma order_patch_frame:
  "t_title (apply_patch (empty_patch\<lparr>p_order := Some n\<rparr>) t) = t_title t"
  "t_tags (apply_patch (empty_patch\<lparr>p_order := Some n\<rparr>) t) = t_tags t"
  "t_due_at (apply_patch (empty_patch\<lparr>p_order := Some n\<rparr>) t) = t_due_at t"
  "t_completed (apply_patch (empty_patch\<lparr>p_order := Some n\<rparr>) t) = t_completed t"
  "t_id (apply_patch (empty_patch\<lparr>p_order := Some n\<rparr>) t) = t_id t"
  by (simp_all add: apply_patch_def empty_patch_def)

lemma order_requests_frame:
  assumes "\<And>r. r \<in> set rs \<Longrightarrow> \<exists>ident n. r = Update ident (empty_patch\<lparr>p_order := Some n\<rparr>)"
  shows "map t_title (fold (gateway_apply srv) rs db) = map t_title db \<and>
         map t_tags (fold (gateway_apply srv) rs db) = map t_tags db \<and>
         map t_due_at (fold (gateway_apply srv) rs db) = map t_due_at db \<and>
         map t_completed (fold (gateway_apply srv) rs db) = map t_completed db \<and>
         map t_id (fold (gateway_apply srv) rs db) = map t_id db"
  using assms
proof (induction rs arbitrary: db)
  case Nil
  then show ?case by simp
next
  case (Cons r rs)
  from Cons.prems [of r] obtain ident n where
    r: "r = Update ident (empty_patch\<lparr>p_order := Some n\<rparr>)" by auto
  have step: "map t_title (gateway_apply srv r db) = map t_title db"
    "map t_tags (gateway_apply srv r db) = map t_tags db"
    "map t_due_at (gateway_apply srv r db) = map t_due_at db"
    "map t_completed (gateway_apply srv r db) = map t_completed db"
    "map t_id (gateway_apply srv r db) = map t_id db"
    by (simp_all add: r order_patch_frame)
  from Cons.IH [of "gateway_apply srv r db"] Cons.prems step show ?case
    by simp
qed

text \<open>C9: every request a drag gesture sends is an update whose body holds the order
  only; applying any of these requests, in any order, to any collection leaves the title,
  tags, due date and completion of every record as they were.\<close>

theorem drag_reorder_frame:
  assumes "drag_requests filtered a over = Inr rs" and "set rs' \<subseteq> set rs"
  shows "(\<forall>r \<in> set rs. \<exists>ident n. r = Update ident (empty_patch\<lparr>p_order := Some n\<rparr>)) \<and>
         map t_title (fold (gateway_apply srv) rs' db) = map t_title db \<and>
         map t_tags (fold (gateway_apply srv) rs' db) = map t_tags db \<and>
         map t_due_at (fold (gateway_apply srv) rs' db) = map t_due_at db \<and>
         map t_completed (fold (gateway_apply srv) rs' db) = map t_completed db"
proof -
  have o: "\<And>r. r \<in> set rs \<Longrightarrow> \<exists>ident n. r = Update ident (empty_patch\<lparr>p_order := Some n\<rparr>)"
    using drag_requests_order_only [OF assms(1)] by blast
  then have "\<And>r. r \<in> set rs' \<Longrightarrow> \<exists>ident n. r = Update ident (empty_patch\<lparr>p_order := Some n\<rparr>)"
    using assms(2) by blast
  from order_requests_frame [of rs' srv db, OF this] o show ?thesis by blast
qed


theorem drag_reorder_frame_witness:
  "drag_requests (Some sample_view) ''a'' (Some ''c'') =
     Inr [Update ''b'' (empty_patch\<lparr>p_order := Some 0\<rparr>),
          Update ''c'' (empty_patch\<lparr>p_order := Some 1\<rparr>),
          Update ''a'' (empty_patch\<lparr>p_order := Some 2\<rparr>)] \<and>
   map t_title (fold (gateway_apply (''id'', ''now''))
       [Update ''a'' (empty_patch\<lparr>p_order := Some 2\<rparr>),
        Update ''b'' (empty_patch\<lparr>p_order := Some 0\<rparr>)] sample_view) =
     [''write report'', ''buy milk'', ''call mom''] \<and>
   map t_completed (fold (gateway_apply (''id'', ''now''))
       [Update ''a'' (empty_patch\<lparr>p_order := Some 2\<rparr>),
        Update ''b'' (empty_patch\<lparr>p_order := Some 0\<rparr>)] sample_view) =
     [False, False, True]"
proof -
  let ?rs = "[Update ''b'' (empty_patch\<lparr>p_order := Some 0\<rparr>),
          Update ''c'' (empty_patch\<lparr>p_order := Some 1\<rparr>),
          Update ''a'' (empty_patch\<lparr>p_order := Some 2\<rparr>)]"
  let ?rs' = "[Update ''a'' (empty_patch\<lparr>p_order := Some 2\<rparr>),
        Update ''b'' (empty_patch\<lparr>p_order := Some 0\<rparr>)]"
  have d: "drag_requests (Some sample_view) ''a'' (Some ''c'') = Inr ?rs"
    by (simp add: drag_requests_def sample_view_drag reorderTodos_def order_request_def)
  have s: "set ?rs' \<subseteq> set ?rs" by simp
  have t: "map t_title sample_view = [''write report'', ''buy milk'', ''call mom'']"
    and c: "map t_completed sample_view = [False, False, True]"
    by (simp_all add: sample_view_def sample_todo_def)
  from drag_reorder_frame [OF d s, of "(''id'', ''now'')" sample_view] d
  show ?thesis by (simp only: t c)
qed

section \<open>Plan merge engine: the order write\<close>

text \<open>What the order write holds: the updates sorted by their order, each with its own
  order value, then the completed records numbered from the number of updates. The order
  values are \<open>0, 1, \<dots>, k + m - 1\<close> when the updates' own orders are a permutation of
  \<open>0, \<dots>, k - 1\<close>.\<close>

lemma orderUpdates_head:
  "take (length us) (orderUpdates todos us) =
     map (\<lambda>u. (a_id u, order_or_zero u)) (sort_key order_or_zero us)"
  by (simp add: orderUpdates_def sort_updates_def)

lemma orderUpdates_tail:
  "drop (length us) (orderUpdates todos us) =
     map (\<lambda>(i, ident). (ident, int (length us + i)))
       (enumerate 0 (map t_id (filter t_completed todos)))"
  by (simp add: orderUpdates_def sort_updates_def)

lemma map_key_sort_key: "map f (sort_key f xs) = sort (map f xs)"
  by (rule properties_for_sort [symmetric]) simp_all

lemma orderUpdates_orders:
  "map snd (orderUpdates todos us) =
     sort (map order_or_zero us) @
     map int [length us..<length us + length (filter t_completed todos)]"
proof -
  have h: "snd \<circ> (\<lambda>u. (a_id u, order_or_zero u)) = order_or_zero"
    by (auto simp: fun_eq_iff)
  have g: "snd \<circ> (\<lambda>(i, ident). (ident, int (length us + i))) = (\<lambda>i. int (length us + i)) \<circ> fst"
    by (auto simp: fun_eq_iff)
  have "map snd (map (\<lambda>(i, ident). (ident, int (length us + i)))
            (enumerate 0 (map t_id (filter t_completed todos)))) =
        map (\<lambda>i. int (length us + i)) (map fst (enumerate 0 (map t_id (filter t_completed todos))))"
    by (simp only: map_map g)
  also have "\<dots> = map (\<lambda>i. int (length us + i)) [0..<length (filter t_completed todos)]"
    by simp
  also have "\<dots> = map int (map (\<lambda>i. i + length us) [0..<length (filter t_completed todos)])"
    by (simp add: add.commute)
  also have "\<dots> = map int [length us..<length us + length (filter t_completed todos)]"
    by (simp only: map_add_upt add.commute)
  finally show ?thesis
    by (simp add: orderUpdates_def sort_updates_def h map_key_sort_key)
qed

lemma orderUpdates_contiguous_if_permutation:
  assumes "mset (map order_or_zero us) = mset (map int [0..<length us])"
  shows "map snd (orderUpdates todos us) =
           map int [0..<length us + length (filter t_completed todos)]"
proof -
  have "sorted (map int [0..<length us])"
    by (simp add: sorted_map)
  with assms have "sort (map order_or_zero us) = map int [0..<length us]"
    by (intro properties_for_sort) simp_all
  then show ?thesis
    by (simp only: orderUpdates_orders upt_add_eq_append [OF le0] map_append)
qed

text \<open>C1 at a collection of two incomplete records and one completed record, with a plan
  that covers the two incomplete records and suggests order 1 for both: the order write
  gives both the order 0 and the completed record the order 2, and these are the first
  three requests that applying the plan sends. The values are not \<open>0, 1, 2\<close>: the second
  record does not receive its position 1.\<close>

theorem plan_merge_ties_collide:
  "orderUpdates sample_collection (map item_update (pl_items sample_plan)) =
     [(''00000000-0000-4000-8000-00000000000a'', 0),
      (''00000000-0000-4000-8000-00000000000b'', 0),
      (''00000000-0000-4000-8000-00000000000d'', 2)] \<and>
   take 3 (snd (panel_handleApplyOptimize sample_gateway (Some sample_collection)
                  (Some sample_plan))) =
     [Update ''00000000-0000-4000-8000-00000000000a'' (empty_patch\<lparr>p_order := Some 0\<rparr>),
      Update ''00000000-0000-4000-8000-00000000000b'' (empty_patch\<lparr>p_order := Some 0\<rparr>),
      Update ''00000000-0000-4000-8000-00000000000d'' (empty_patch\<lparr>p_order := Some 2\<rparr>)]"
  by code_simp

end
